theory Spec2Isabelle
  imports Main
begin

section \<open>The resource cache pool of \<open>server/knowledge_base/kb_cache\<close>\<close>

text \<open>
  The theory embeds \<open>kb_cache/base.py\<close> (\<open>ThreadSafeObject\<close>, \<open>CachePool\<close>,
  \<open>EmbeddingsPool\<close>) and \<open>kb_cache/faiss_cache.py\<close> (\<open>_FaissPool\<close>, \<open>KBFaissPool\<close>).
  A call is modelled as executed by one thread in a given state of the pool, in which other
  threads may hold locks and entries may still be under construction. Threads that are inside
  a loader at the same time are modelled by their program points, one step per statement.
\<close>

subsection \<open>Errors and outcomes of a call\<close>

text \<open>
  \<open>KeyError\<close> is raised by \<open>OrderedDict.popitem\<close> and \<open>OrderedDict.move_to_end\<close>.
  \<open>ResourceMissing\<close> is the \<open>RuntimeError\<close> of \<open>CachePool.acquire\<close> (its message is not
  ASCII). \<open>RuntimeError m\<close> is a \<open>RuntimeError\<close> with message \<open>m\<close>. \<open>AttributeError\<close> is
  raised by \<open>None.obj\<close>. \<open>BackendError\<close> is any exception raised by a library the pool
  calls (an embedding backend's constructor).
\<close>

datatype error = KeyError | ResourceMissing | RuntimeError string | AttributeError | BackendError

text \<open>
  A call returns a value, raises, or blocks: \<open>Wait s\<close> says that the calling thread is
  suspended in state \<open>s\<close>, at \<open>RLock.acquire\<close> on a lock another thread owns or at
  \<open>Event.wait\<close> on a readiness signal that is not set. Python does not roll the state
  back when it raises, so \<open>Raise\<close> carries the state too.
\<close>

datatype ('a, 's) outcome = Return 'a 's | Raise error 's | Wait 's

subsection \<open>\<open>threading.RLock\<close>\<close>

type_synonym thread = nat

text \<open>A reentrant lock is free (\<open>None\<close>) or owned by a thread with a recursion level.\<close>

type_synonym RLock = "(thread \<times> nat) option"

text \<open>\<open>RLock.acquire()\<close> of thread \<open>t\<close>: \<open>None\<close> when the caller has to block.\<close>

definition RLock_acquire :: "thread \<Rightarrow> RLock \<Rightarrow> RLock option" where
  "RLock_acquire t l =
     (case l of
        None \<Rightarrow> Some (Some (t, 1))
      | Some (owner, n) \<Rightarrow> if owner = t then Some (Some (t, n + 1)) else None)"

text \<open>\<open>RLock.release()\<close> of thread \<open>t\<close>: a \<open>RuntimeError\<close> when \<open>t\<close> does not own the lock.\<close>

definition RLock_release :: "thread \<Rightarrow> RLock \<Rightarrow> error + RLock" where
  "RLock_release t l =
     (case l of
        None \<Rightarrow> Inl (RuntimeError ''cannot release un-acquired lock'')
      | Some (owner, n) \<Rightarrow>
          if owner \<noteq> t then Inl (RuntimeError ''cannot release un-acquired lock'')
          else if n \<le> 1 then Inr None else Inr (Some (t, n - 1)))"

subsection \<open>\<open>collections.OrderedDict\<close>\<close>

text \<open>
  The dictionary is an association list in its iteration order: the oldest entry is the
  head, the end is where \<open>move_to_end\<close> and a new key go.
\<close>

type_synonym ('k, 'a) OrderedDict = "('k \<times> 'a) list"

definition od_get :: "('k, 'a) OrderedDict \<Rightarrow> 'k \<Rightarrow> 'a option" where
  "od_get d k = map_of d k"

text \<open>\<open>d[k] = v\<close>: an existing key keeps its position, a new key is appended.\<close>

fun od_setitem :: "('k, 'a) OrderedDict \<Rightarrow> 'k \<Rightarrow> 'a \<Rightarrow> ('k, 'a) OrderedDict" where
  "od_setitem [] k v = [(k, v)]"
| "od_setitem ((k', v') # d) k v =
     (if k' = k then (k, v) # d else (k', v') # od_setitem d k v)"

text \<open>\<open>d.popitem(last=False)\<close>\<close>

definition od_popitem_first ::
  "('k, 'a) OrderedDict \<Rightarrow> error + (('k \<times> 'a) \<times> ('k, 'a) OrderedDict)" where
  "od_popitem_first d = (case d of [] \<Rightarrow> Inl KeyError | x # xs \<Rightarrow> Inr (x, xs))"

text \<open>\<open>d.pop(k, None)\<close>\<close>

definition od_pop :: "('k, 'a) OrderedDict \<Rightarrow> 'k \<Rightarrow> 'a option \<times> ('k, 'a) OrderedDict" where
  "od_pop d k = (map_of d k, filter (\<lambda>p. fst p \<noteq> k) d)"

text \<open>\<open>d.move_to_end(k)\<close>\<close>

definition od_move_to_end :: "('k, 'a) OrderedDict \<Rightarrow> 'k \<Rightarrow> error + ('k, 'a) OrderedDict" where
  "od_move_to_end d k =
     (case map_of d k of
        None \<Rightarrow> Inl KeyError
      | Some v \<Rightarrow> Inr (filter (\<lambda>p. fst p \<noteq> k) d @ [(k, v)]))"

subsection \<open>\<open>ThreadSafeObject\<close>\<close>

text \<open>
  Objects live in a store and the pool holds references to them, as in Python: an entry
  that was evicted is still the object a thread received. \<open>loaded\<close> is the
  \<open>threading.Event\<close>, clear when the object is made. \<open>has_pool\<close> says that \<open>_pool\<close> is not
  \<open>None\<close>.
\<close>

type_synonym ref = nat

record ('k, 'v) ThreadSafeObject =
  key :: 'k
  obj :: "'v option"
  has_pool :: bool
  lock :: RLock
  loaded :: bool

type_synonym ('k, 'v) store = "ref \<Rightarrow> ('k, 'v) ThreadSafeObject"

text \<open>\<open>ThreadSafeObject(key, pool=self)\<close>\<close>

definition ThreadSafeObject_init :: "'k \<Rightarrow> ('k, 'v) ThreadSafeObject" where
  "ThreadSafeObject_init k =
     \<lparr>key = k, obj = None, has_pool = True, lock = None, loaded = False\<rparr>"

subsection \<open>\<open>CachePool\<close>\<close>

record 'k CachePool =
  cache_num :: int
  cache :: "('k, ref) OrderedDict"
  atomic :: RLock

text \<open>\<open>CachePool(cache_num)\<close>\<close>

definition CachePool_init :: "int \<Rightarrow> 'k CachePool" where
  "CachePool_init n = \<lparr>cache_num = n, cache = [], atomic = None\<rparr>"

definition keys :: "'k CachePool \<Rightarrow> 'k list" where
  "keys p = map fst (cache p)"

text \<open>The \<open>while\<close> loop of \<open>_check_count\<close>.\<close>

function check_count_loop :: "'k CachePool \<Rightarrow> (unit, 'k CachePool) outcome" where
  "check_count_loop p =
     (if int (length (cache p)) > cache_num p
      then (case od_popitem_first (cache p) of
              Inl e \<Rightarrow> Raise e p
            | Inr (x, d) \<Rightarrow> check_count_loop (p\<lparr>cache := d\<rparr>))
      else Return () p)"
  by pat_completeness auto
termination
  by (relation "measure (\<lambda>p. length (cache p))")
     (auto simp: od_popitem_first_def split: list.splits)

declare check_count_loop.simps [simp del]

text \<open>
  \<open>_check_count\<close>. The capacity is an \<open>int\<close> here, so \<open>isinstance(self._cache_num, int)\<close>
  holds.
\<close>

definition check_count :: "'k CachePool \<Rightarrow> (unit, 'k CachePool) outcome" where
  "check_count p = (if cache_num p > 0 then check_count_loop p else Return () p)"

text \<open>
  \<open>get\<close>: every cached value is a \<open>ThreadSafeObject\<close>, which is truthy, so the branch is
  taken exactly when the key is present. The pool is not changed.
\<close>

definition get ::
  "('k, 'v) store \<Rightarrow> 'k CachePool \<Rightarrow> 'k \<Rightarrow> (ref option, 'k CachePool) outcome" where
  "get h p k =
     (case od_get (cache p) k of
        None \<Rightarrow> Return None p
      | Some r \<Rightarrow> if loaded (h r) then Return (Some r) p else Wait p)"

text \<open>\<open>set\<close>\<close>

definition set_obj :: "'k CachePool \<Rightarrow> 'k \<Rightarrow> ref \<Rightarrow> (ref, 'k CachePool) outcome" where
  "set_obj p k r =
     (case check_count (p\<lparr>cache := od_setitem (cache p) k r\<rparr>) of
        Return _ p' \<Rightarrow> Return r p'
      | Raise e p' \<Rightarrow> Raise e p'
      | Wait p' \<Rightarrow> Wait p')"

text \<open>
  \<open>pop\<close> returns a \<open>(key, value)\<close> pair when the key is \<open>None\<close>, and the value or \<open>None\<close>
  otherwise.
\<close>

datatype 'k popped = Item 'k ref | Value "ref option"

definition pop :: "'k CachePool \<Rightarrow> 'k option \<Rightarrow> ('k popped, 'k CachePool) outcome" where
  "pop p ko =
     (case ko of
        None \<Rightarrow>
          (case od_popitem_first (cache p) of
             Inl e \<Rightarrow> Raise e p
           | Inr ((k, r), d) \<Rightarrow> Return (Item k r) (p\<lparr>cache := d\<rparr>))
      | Some k \<Rightarrow>
          (case od_pop (cache p) k of (v, d) \<Rightarrow> Return (Value v) (p\<lparr>cache := d\<rparr>)))"

text \<open>
  \<open>CachePool.acquire\<close>, up to the point where it returns the context manager of the
  object: the lock is taken only when the caller enters that context manager.
\<close>

definition acquire ::
  "('k, 'v) store \<Rightarrow> 'k CachePool \<Rightarrow> 'k \<Rightarrow> (ref, 'k CachePool) outcome" where
  "acquire h p k =
     (case get h p k of
        Wait p' \<Rightarrow> Wait p'
      | Raise e p' \<Rightarrow> Raise e p'
      | Return None p' \<Rightarrow> Raise ResourceMissing p'
      | Return (Some r) p' \<Rightarrow>
          (case od_move_to_end (cache p') k of
             Inl e \<Rightarrow> Raise e p'
           | Inr d \<Rightarrow> Return r (p'\<lparr>cache := d\<rparr>)))"

subsection \<open>Sequences of calls on a pool\<close>

text \<open>
  The public operations of \<open>CachePool\<close> as data, to speak about every sequence of calls.
  Each call comes with the store at the time of the call, since other threads finish
  loading objects between two calls.
\<close>

datatype 'k call = Get 'k | Set 'k ref | Pop "'k option" | Acquire 'k

text \<open>The state a call leaves the pool in, however it ends.\<close>

fun after :: "('a, 's) outcome \<Rightarrow> 's" where
  "after (Return _ s) = s"
| "after (Raise _ s) = s"
| "after (Wait s) = s"

fun returns :: "('a, 's) outcome \<Rightarrow> bool" where
  "returns (Return _ _) = True"
| "returns (Raise _ _) = False"
| "returns (Wait _) = False"

fun do_call :: "('k, 'v) store \<Rightarrow> 'k CachePool \<Rightarrow> 'k call \<Rightarrow> 'k CachePool" where
  "do_call h p (Get k) = after (get h p k)"
| "do_call h p (Set k r) = after (set_obj p k r)"
| "do_call h p (Pop ko) = after (pop p ko)"
| "do_call h p (Acquire k) = after (acquire h p k)"

fun do_calls :: "'k CachePool \<Rightarrow> (('k, 'v) store \<times> 'k call) list \<Rightarrow> 'k CachePool" where
  "do_calls p [] = p"
| "do_calls p ((h, c) # cs) = do_calls (do_call h p c) cs"

subsection \<open>A pool with its objects\<close>

text \<open>
  The loaders make objects, so their state holds the store as well: \<open>next_ref\<close> is the
  reference of the next object made.
\<close>

record ('k, 'v) state =
  pool :: "'k CachePool"
  objects :: "('k, 'v) store"
  next_ref :: ref

text \<open>\<open>self.atomic.acquire()\<close> and \<open>self.atomic.release()\<close>\<close>

definition atomic_acquire ::
  "thread \<Rightarrow> ('k, 'v, 'z) state_scheme \<Rightarrow> ('k, 'v, 'z) state_scheme option" where
  "atomic_acquire t s =
     (case RLock_acquire t (atomic (pool s)) of
        None \<Rightarrow> None
      | Some l \<Rightarrow> Some (s\<lparr>pool := (pool s)\<lparr>atomic := l\<rparr>\<rparr>))"

definition atomic_release ::
  "thread \<Rightarrow> ('k, 'v, 'z) state_scheme \<Rightarrow> error + ('k, 'v, 'z) state_scheme" where
  "atomic_release t s =
     (case RLock_release t (atomic (pool s)) of
        Inl e \<Rightarrow> Inl e
      | Inr l \<Rightarrow> Inr (s\<lparr>pool := (pool s)\<lparr>atomic := l\<rparr>\<rparr>))"

text \<open>\<open>self.get(key)\<close> and \<open>self.set(key, item)\<close> on the pool of a state\<close>

definition get_in ::
  "('k, 'v, 'z) state_scheme \<Rightarrow> 'k \<Rightarrow> (ref option, ('k, 'v, 'z) state_scheme) outcome" where
  "get_in s k =
     (case get (objects s) (pool s) k of
        Return v p \<Rightarrow> Return v (s\<lparr>pool := p\<rparr>)
      | Raise e p \<Rightarrow> Raise e (s\<lparr>pool := p\<rparr>)
      | Wait p \<Rightarrow> Wait (s\<lparr>pool := p\<rparr>))"

definition set_in ::
  "('k, 'v, 'z) state_scheme \<Rightarrow> 'k \<Rightarrow> ref \<Rightarrow> (ref, ('k, 'v, 'z) state_scheme) outcome" where
  "set_in s k r =
     (case set_obj (pool s) k r of
        Return v p \<Rightarrow> Return v (s\<lparr>pool := p\<rparr>)
      | Raise e p \<Rightarrow> Raise e (s\<lparr>pool := p\<rparr>)
      | Wait p \<Rightarrow> Wait (s\<lparr>pool := p\<rparr>))"

text \<open>\<open>item = ThreadSafeObject(key, pool=self)\<close>: a new object in the store\<close>

definition new_object ::
  "'k \<Rightarrow> ('k, 'v, 'z) state_scheme \<Rightarrow> ref \<times> ('k, 'v, 'z) state_scheme" where
  "new_object k s =
     (next_ref s,
      s\<lparr>objects := (objects s)(next_ref s := ThreadSafeObject_init k),
        next_ref := Suc (next_ref s)\<rparr>)"

text \<open>\<open>item.obj = val\<close> and \<open>item.finish_loading()\<close>\<close>

definition obj_setter ::
  "ref \<Rightarrow> 'v \<Rightarrow> ('k, 'v, 'z) state_scheme \<Rightarrow> ('k, 'v, 'z) state_scheme" where
  "obj_setter r val s = s\<lparr>objects := (objects s)(r := (objects s r)\<lparr>obj := Some val\<rparr>)\<rparr>"

definition finish_loading ::
  "ref \<Rightarrow> ('k, 'v, 'z) state_scheme \<Rightarrow> ('k, 'v, 'z) state_scheme" where
  "finish_loading r s = s\<lparr>objects := (objects s)(r := (objects s r)\<lparr>loaded := True\<rparr>)\<rparr>"

text \<open>
  The \<open>finally\<close> clause of \<open>ThreadSafeObject.acquire\<close>: \<open>self._lock.release()\<close>; an
  exception of the release replaces the outcome of the block.
\<close>

definition lock_release ::
  "thread \<Rightarrow> ref \<Rightarrow> ('a, ('k, 'v, 'z) state_scheme) outcome \<Rightarrow>
   ('a, ('k, 'v, 'z) state_scheme) outcome" where
  "lock_release t r out =
     (case out of
        Wait s \<Rightarrow> Wait s
      | Return a s \<Rightarrow>
          (case RLock_release t (lock (objects s r)) of
             Inl e \<Rightarrow> Raise e s
           | Inr l \<Rightarrow> Return a (s\<lparr>objects := (objects s)(r := (objects s r)\<lparr>lock := l\<rparr>)\<rparr>))
      | Raise e s \<Rightarrow>
          (case RLock_release t (lock (objects s r)) of
             Inl e' \<Rightarrow> Raise e' s
           | Inr l \<Rightarrow> Raise e (s\<lparr>objects := (objects s)(r := (objects s r)\<lparr>lock := l\<rparr>)\<rparr>)))"

text \<open>
  \<open>with item.acquire(msg): body\<close>, for the object \<open>r\<close>: take its lock, move its key to the
  end of the pool's ordering (a \<open>KeyError\<close> when the key is not in the pool), run the body,
  and release the lock on every exit path.
\<close>

definition with_acquire ::
  "thread \<Rightarrow> ref \<Rightarrow> ('k, 'v, 'z) state_scheme \<Rightarrow>
   (('k, 'v, 'z) state_scheme \<Rightarrow> ('a, ('k, 'v, 'z) state_scheme) outcome) \<Rightarrow>
   ('a, ('k, 'v, 'z) state_scheme) outcome" where
  "with_acquire t r s body =
     (case RLock_acquire t (lock (objects s r)) of
        None \<Rightarrow> Wait s
      | Some l \<Rightarrow>
          (let s1 = s\<lparr>objects := (objects s)(r := (objects s r)\<lparr>lock := l\<rparr>)\<rparr>
           in lock_release t r
                (if has_pool (objects s1 r)
                 then (case od_move_to_end (cache (pool s1)) (key (objects s1 r)) of
                         Inl e \<Rightarrow> Raise e s1
                       | Inr d \<Rightarrow> body (s1\<lparr>pool := (pool s1)\<lparr>cache := d\<rparr>\<rparr>))
                 else body s1)))"

subsection \<open>\<open>EmbeddingsPool\<close>\<close>

text \<open>\<open>x in s\<close> on strings\<close>

fun starts_with :: "string \<Rightarrow> string \<Rightarrow> bool" where
  "starts_with s [] = True"
| "starts_with [] (c # cs) = False"
| "starts_with (a # s) (c # cs) = (a = c \<and> starts_with s cs)"

fun str_in :: "string \<Rightarrow> string \<Rightarrow> bool" where
  "str_in x [] = (x = [])"
| "str_in x (c # s) = (starts_with (c # s) x \<or> str_in x s)"

text \<open>\<open>a or b\<close> on an optional string: \<open>None\<close> and the empty string are falsy.\<close>

definition str_or :: "string option \<Rightarrow> string \<Rightarrow> string" where
  "str_or a b = (case a of None \<Rightarrow> b | Some x \<Rightarrow> if x = [] then b else x)"

text \<open>
  The embedding handles, by the class and the arguments they are made with. The two
  query instructions of the source are not ASCII, so the three cases are named.
\<close>

datatype query_instruction = ForChinese | ForEnglish | NoInstruction

datatype Embeddings =
    OpenAIEmbeddings string string int
  | HuggingFaceBgeEmbeddings string string query_instruction
  | HuggingFaceEmbeddings string string
  | EmbeddingsFunAdapter string

text \<open>
  What the module takes from \<open>configs\<close> and \<open>server.utils\<close>, which are not part of the
  sources at hand, and from the libraries: the configured model and device, the chunk
  size, the model paths, whether a backend's constructor raises, the embedding model the
  database has for a knowledge base, the online embedding models, and the path of a
  vector store.
\<close>

record config =
  EMBEDDING_MODEL :: string
  embedding_device :: string
  CHUNK_SIZE :: int
  get_model_path :: "string \<Rightarrow> string"
  backend_raises :: "Embeddings \<Rightarrow> bool"
  kb_embed_model :: "string \<Rightarrow> string option"
  list_online_embed_models :: "string list"
  get_vs_path :: "string \<Rightarrow> string \<Rightarrow> string"

text \<open>The body of the \<open>with\<close> block of \<open>load_embeddings\<close>, up to the assignment to \<open>embeddings\<close>.\<close>

definition make_embeddings :: "config \<Rightarrow> string \<Rightarrow> string \<Rightarrow> error + Embeddings" where
  "make_embeddings cfg model device =
     (let embeddings =
        (if model = ''text-embedding-ada-002''
         then OpenAIEmbeddings model (get_model_path cfg model) (CHUNK_SIZE cfg)
         else if str_in ''bge-'' model
         then HuggingFaceBgeEmbeddings (get_model_path cfg model) device
                (if model = ''bge-large-zh-noinstruct'' then NoInstruction
                 else if str_in ''zh'' model then ForChinese
                 else if str_in ''en'' model then ForEnglish
                 else NoInstruction)
         else HuggingFaceEmbeddings (get_model_path cfg model) device)
      in if backend_raises cfg embeddings then Inl BackendError else Inr embeddings)"

type_synonym embed_key = "string \<times> string"

text \<open>The key \<open>load_embeddings\<close> computes from its arguments.\<close>

definition embeddings_key :: "config \<Rightarrow> string option \<Rightarrow> string option \<Rightarrow> embed_key" where
  "embeddings_key cfg model device =
     (let model = str_or model (EMBEDDING_MODEL cfg);
          device = embedding_device cfg
      in (model, device))"

text \<open>\<open>EmbeddingsPool.load_embeddings\<close>, called by thread \<open>t\<close>\<close>

definition load_embeddings ::
  "config \<Rightarrow> thread \<Rightarrow> string option \<Rightarrow> string option \<Rightarrow>
   (embed_key, Embeddings, 'z) state_scheme \<Rightarrow>
   (Embeddings option, (embed_key, Embeddings, 'z) state_scheme) outcome" where
  "load_embeddings cfg t model device s =
     (case atomic_acquire t s of
        None \<Rightarrow> Wait s
      | Some s1 \<Rightarrow>
          (let model = str_or model (EMBEDDING_MODEL cfg);
               device = embedding_device cfg;
               k = (model, device);
               created =
                 (case get_in s1 k of
                    Wait s2 \<Rightarrow> Wait s2
                  | Raise e s2 \<Rightarrow> Raise e s2
                  | Return None s2 \<Rightarrow>
                      (case new_object k s2 of (item, s3) \<Rightarrow>
                         (case set_in s3 k item of
                            Wait s4 \<Rightarrow> Wait s4
                          | Raise e s4 \<Rightarrow> Raise e s4
                          | Return _ s4 \<Rightarrow>
                              with_acquire t item s4 (\<lambda>s5.
                                case atomic_release t s5 of
                                  Inl e \<Rightarrow> Raise e s5
                                | Inr s6 \<Rightarrow>
                                    (case make_embeddings cfg model device of
                                       Inl e \<Rightarrow> Raise e s6
                                     | Inr embeddings \<Rightarrow>
                                         Return () (finish_loading item
                                                      (obj_setter item embeddings s6))))))
                  | Return (Some c) s2 \<Rightarrow>
                      (case atomic_release t s2 of
                         Inl e \<Rightarrow> Raise e s2
                       | Inr s3 \<Rightarrow> Return () s3))
           in case created of
                Wait s7 \<Rightarrow> Wait s7
              | Raise e s7 \<Rightarrow> Raise e s7
              | Return _ s7 \<Rightarrow>
                  (case get_in s7 k of
                     Wait s8 \<Rightarrow> Wait s8
                   | Raise e s8 \<Rightarrow> Raise e s8
                   | Return None s8 \<Rightarrow> Raise AttributeError s8
                   | Return (Some c) s8 \<Rightarrow> Return (obj (objects s8 c)) s8)))"

subsection \<open>\<open>_FaissPool\<close> and \<open>KBFaissPool\<close>\<close>

text \<open>
  Of a FAISS vector store the model keeps the document store (the dictionary from
  document ids to documents, in insertion order) and the embedding function. The library
  draws the ids at random; here they are the positions of the documents.
\<close>

datatype Document = Document string "(string \<times> string) list"

record FAISS =
  docstore :: "(nat \<times> Document) list"
  embedding_function :: "Embeddings option"





text \<open>
  The state of the vector-store pool: the pool and its objects, the directories on disk,
  the persisted index of each vector-store path (present exactly when the file
  \<open>index.faiss\<close> is in the directory), and the module-level \<open>embeddings_pool\<close>.
\<close>

record kb_state = "(string \<times> string, FAISS) state" +
  dirs :: "string set"
  index_faiss :: "string \<Rightarrow> (nat \<times> Document) list option"
  embeddings_pool :: "(embed_key, Embeddings) state"





text \<open>\<open>_FaissPool.unload_vector_store\<close>\<close>

definition unload_vector_store ::
  "('k, 'v, 'z) state_scheme \<Rightarrow> 'k \<Rightarrow> (unit, ('k, 'v, 'z) state_scheme) outcome" where
  "unload_vector_store s kb_name =
     (case get_in s kb_name of
        Wait s1 \<Rightarrow> Wait s1
      | Raise e s1 \<Rightarrow> Raise e s1
      | Return None s1 \<Rightarrow> Return () s1
      | Return (Some c) s1 \<Rightarrow>
          (case pop (pool s1) (Some kb_name) of
             Wait p \<Rightarrow> Wait (s1\<lparr>pool := p\<rparr>)
           | Raise e p \<Rightarrow> Raise e (s1\<lparr>pool := p\<rparr>)
           | Return _ p \<Rightarrow> Return () (s1\<lparr>pool := p\<rparr>)))"

subsection \<open>The module-level pools\<close>




subsection \<open>Threads inside a loader at the same time\<close>

text \<open>
  The loaders \<open>EmbeddingsPool.load_embeddings\<close> and \<open>KBFaissPool.load_vector_store\<close> have the
  same shape. To follow several threads that are inside a loader for one key at the same
  time, each thread has a program point, and a step of a thread runs the statement at its
  point:

  \<^item> \<open>L_acquire\<close>: \<open>self.atomic.acquire()\<close>;
  \<^item> \<open>L_get\<close>, \<open>L_wait\<close>: the lookup of \<open>self.get(key)\<close> and its \<open>wait_for_loading()\<close>;
  \<^item> \<open>L_release_hit\<close>: \<open>self.atomic.release()\<close> of the \<open>else\<close> branch;
  \<^item> \<open>L_new\<close>: \<open>item = ThreadSafeObject(key, pool=self)\<close>;
  \<^item> \<open>L_set\<close>: \<open>self.set(key, item)\<close>;
  \<^item> \<open>L_enter\<close>: entering \<open>with item.acquire(...)\<close>, that is \<open>self._lock.acquire()\<close> and
    \<open>self._pool._cache.move_to_end(self.key)\<close>;
  \<^item> \<open>L_release\<close>: \<open>self.atomic.release()\<close> inside the \<open>with\<close> block;
  \<^item> \<open>L_build\<close>: the construction of the resource, which returns a value or raises;
  \<^item> \<open>L_assign\<close>: \<open>item.obj = ...\<close>;
  \<^item> \<open>L_finish\<close>: \<open>item.finish_loading()\<close>;
  \<^item> \<open>L_exit\<close>: leaving the \<open>with\<close> block, that is \<open>self._lock.release()\<close> of the \<open>finally\<close>
    clause, after the body ended normally or with an error;
  \<^item> \<open>L_final_get\<close>, \<open>L_final_wait\<close>: the lookup and the wait of the \<open>self.get(key)\<close> of the
    \<open>return\<close> statement;
  \<^item> \<open>Done\<close>: the call has returned the entry \<open>self.get(key)\<close> gave (\<open>load_vector_store\<close>
    returns it, \<open>load_embeddings\<close> returns its \<open>obj\<close>);
  \<^item> \<open>Failed\<close>: the call has raised;
  \<^item> \<open>Idle\<close>: the thread takes no part.
\<close>

datatype 'v pc =
    Idle
  | L_acquire
  | L_get
  | L_wait ref
  | L_release_hit
  | L_new
  | L_set ref
  | L_enter ref
  | L_release ref
  | L_build ref
  | L_assign ref 'v
  | L_finish ref
  | L_exit ref "error option"
  | L_final_get
  | L_final_wait ref
  | Done "ref option"
  | Failed error

text \<open>
  The state of the threads: the pool and its objects, the program point of every thread, and
  the number of times the construction of the resource has been run.
\<close>

record ('k, 'v) system = "('k, 'v) state" +
  pcs :: "thread \<Rightarrow> 'v pc"
  constructed :: nat

definition goto :: "thread \<Rightarrow> 'v pc \<Rightarrow> ('k, 'v) system \<Rightarrow> ('k, 'v) system" where
  "goto t l s = s\<lparr>pcs := (pcs s)(t := l)\<rparr>"

text \<open>
  One step of thread \<open>t\<close> in a loader for key \<open>k\<close>; \<open>build\<close> is what the construction of the
  resource does, return a value or raise. \<open>None\<close> when the thread cannot move: it has ended,
  or it is blocked in \<open>RLock.acquire()\<close> or in \<open>Event.wait()\<close>.
\<close>

definition step ::
  "'k \<Rightarrow> error + 'v \<Rightarrow> thread \<Rightarrow> ('k, 'v) system \<Rightarrow> ('k, 'v) system option" where
  "step k build t s =
     (case pcs s t of
        Idle \<Rightarrow> None
      | L_acquire \<Rightarrow>
          (case atomic_acquire t s of None \<Rightarrow> None | Some s1 \<Rightarrow> Some (goto t L_get s1))
      | L_get \<Rightarrow>
          (case od_get (cache (pool s)) k of
             None \<Rightarrow> Some (goto t L_new s)
           | Some r \<Rightarrow> Some (goto t (L_wait r) s))
      | L_wait r \<Rightarrow>
          if loaded (objects s r) then Some (goto t L_release_hit s) else None
      | L_release_hit \<Rightarrow>
          (case atomic_release t s of
             Inl e \<Rightarrow> Some (goto t (Failed e) s)
           | Inr s1 \<Rightarrow> Some (goto t L_final_get s1))
      | L_new \<Rightarrow>
          (case new_object k s of (item, s1) \<Rightarrow> Some (goto t (L_set item) s1))
      | L_set r \<Rightarrow>
          (case set_in s k r of
             Return _ s1 \<Rightarrow> Some (goto t (L_enter r) s1)
           | Raise e s1 \<Rightarrow> Some (goto t (Failed e) s1)
           | Wait s1 \<Rightarrow> None)
      | L_enter r \<Rightarrow>
          (case RLock_acquire t (lock (objects s r)) of
             None \<Rightarrow> None
           | Some l \<Rightarrow>
               (let s1 = s\<lparr>objects := (objects s)(r := (objects s r)\<lparr>lock := l\<rparr>)\<rparr>
                in if has_pool (objects s1 r)
                   then (case od_move_to_end (cache (pool s1)) (key (objects s1 r)) of
                           Inl e \<Rightarrow> Some (goto t (L_exit r (Some e)) s1)
                         | Inr d \<Rightarrow>
                             Some (goto t (L_release r) (s1\<lparr>pool := (pool s1)\<lparr>cache := d\<rparr>\<rparr>)))
                   else Some (goto t (L_release r) s1)))
      | L_release r \<Rightarrow>
          (case atomic_release t s of
             Inl e \<Rightarrow> Some (goto t (L_exit r (Some e)) s)
           | Inr s1 \<Rightarrow> Some (goto t (L_build r) s1))
      | L_build r \<Rightarrow>
          (case build of
             Inl e \<Rightarrow> Some (goto t (L_exit r (Some e)) (s\<lparr>constructed := Suc (constructed s)\<rparr>))
           | Inr v \<Rightarrow> Some (goto t (L_assign r v) (s\<lparr>constructed := Suc (constructed s)\<rparr>)))
      | L_assign r v \<Rightarrow> Some (goto t (L_finish r) (obj_setter r v s))
      | L_finish r \<Rightarrow> Some (goto t (L_exit r None) (finish_loading r s))
      | L_exit r res \<Rightarrow>
          (case RLock_release t (lock (objects s r)) of
             Inl e \<Rightarrow> Some (goto t (Failed e) s)
           | Inr l \<Rightarrow>
               Some (goto t (case res of None \<Rightarrow> L_final_get | Some e \<Rightarrow> Failed e)
                       (s\<lparr>objects := (objects s)(r := (objects s r)\<lparr>lock := l\<rparr>)\<rparr>)))
      | L_final_get \<Rightarrow>
          (case od_get (cache (pool s)) k of
             None \<Rightarrow> Some (goto t (Done None) s)
           | Some r \<Rightarrow> Some (goto t (L_final_wait r) s))
      | L_final_wait r \<Rightarrow>
          if loaded (objects s r) then Some (goto t (Done (Some r)) s) else None
      | Done x \<Rightarrow> None
      | Failed e \<Rightarrow> None)"










section \<open>Properties\<close>

lemma od_setitem_new: "k \<notin> fst ` set d \<Longrightarrow> od_setitem d k v = d @ [(k, v)]"
  by (induction d) auto

lemma check_count_loop_pos:
  "0 < cache_num p \<Longrightarrow>
   check_count_loop p =
     Return () (p\<lparr>cache := drop (length (cache p) - nat (cache_num p)) (cache p)\<rparr>)"
proof (induction p rule: check_count_loop.induct)
  case (1 p)
  show ?case
  proof (cases "int (length (cache p)) > cache_num p")
    case False
    then show ?thesis by (subst check_count_loop.simps) simp
  next
    case True
    with "1.prems" obtain x d where c: "cache p = x # d"
      by (cases "cache p") auto
    have pf: "od_popitem_first (cache p) = Inr (x, d)"
      by (simp add: od_popitem_first_def c)
    have "check_count_loop p = check_count_loop (p\<lparr>cache := d\<rparr>)"
      using True pf by (subst check_count_loop.simps) simp
    also have "\<dots> = Return () (p\<lparr>cache := drop (length d - nat (cache_num p)) d\<rparr>)"
      using "1.IH" [OF True pf refl] "1.prems" by simp
    also have "drop (length d - nat (cache_num p)) d
                 = drop (length (cache p) - nat (cache_num p)) (cache p)"
    proof -
      from True c have "nat (cache_num p) \<le> length d" by simp
      then have "length (cache p) - nat (cache_num p) = Suc (length d - nat (cache_num p))"
        by (simp add: c)
      then show ?thesis by (simp add: c)
    qed
    finally show ?thesis .
  qed
qed

lemma check_count_pos:
  "0 < cache_num p \<Longrightarrow>
   check_count p = Return () (p\<lparr>cache := drop (length (cache p) - nat (cache_num p)) (cache p)\<rparr>)"
  by (simp add: check_count_def check_count_loop_pos)

lemma check_count_nonpos: "cache_num p \<le> 0 \<Longrightarrow> check_count p = Return () p"
  by (simp add: check_count_def)

lemma set_obj_pos:
  "0 < cache_num p \<Longrightarrow>
   set_obj p k r =
     Return r (p\<lparr>cache := drop (length (od_setitem (cache p) k r) - nat (cache_num p))
                               (od_setitem (cache p) k r)\<rparr>)"
  by (simp add: set_obj_def check_count_pos)

lemma set_obj_nonpos:
  "cache_num p \<le> 0 \<Longrightarrow> set_obj p k r = Return r (p\<lparr>cache := od_setitem (cache p) k r\<rparr>)"
  by (simp add: set_obj_def check_count_nonpos)

lemma set_obj_returns: "\<exists>p'. set_obj p k r = Return r p' \<and> cache_num p' = cache_num p \<and> atomic p' = atomic p"
  by (cases "0 < cache_num p") (simp_all add: set_obj_pos set_obj_nonpos)

lemma keys_od_setitem: "fst ` set (od_setitem d k v) = insert k (fst ` set d)"
proof (induction d)
  case Nil
  show ?case by simp
next
  case (Cons x d)
  obtain a b where x: "x = (a, b)" by (cases x)
  show ?case using Cons.IH by (cases "a = k") (simp_all add: x insert_commute)
qed

lemma get_pool: "after (get h p k) = p"
  by (simp add: get_def od_get_def split: option.splits)

lemma length_filter_present:
  "map_of d k = Some v \<Longrightarrow> Suc (length (filter (\<lambda>e. fst e \<noteq> k) d)) \<le> length d"
proof (induction d)
  case Nil
  then show ?case by simp
next
  case (Cons x d)
  show ?case
  proof (cases "fst x = k")
    case True
    have "length (filter (\<lambda>e. fst e \<noteq> k) d) \<le> length d" by (rule length_filter_le)
    with True show ?thesis by simp
  next
    case False
    with Cons.prems have "map_of d k = Some v" by (cases x) (auto split: if_splits)
    from Cons.IH [OF this] False show ?thesis by simp
  qed
qed

lemma pop_length:
  "length (cache (after (pop p ko))) \<le> length (cache p) \<and> cache_num (after (pop p ko)) = cache_num p"
  by (auto simp: pop_def od_popitem_first_def od_pop_def split: option.splits list.splits)

lemma acquire_length:
  "length (cache (after (acquire h p k))) \<le> length (cache p) \<and>
   cache_num (after (acquire h p k)) = cache_num p"
proof (cases "od_get (cache p) k")
  case None
  then show ?thesis by (simp add: acquire_def get_def)
next
  case (Some r)
  then have m: "map_of (cache p) k = Some r" by (simp add: od_get_def)
  show ?thesis
  proof (cases "loaded (h r)")
    case False
    with Some show ?thesis by (simp add: acquire_def get_def)
  next
    case True
    with Some m length_filter_present [OF m] show ?thesis
      by (simp add: acquire_def get_def od_move_to_end_def)
  qed
qed

lemma set_obj_bound:
  assumes "0 < cache_num p"
  shows "int (length (cache (after (set_obj p k r)))) \<le> cache_num p \<and>
         cache_num (after (set_obj p k r)) = cache_num p"
  using assms by (simp add: set_obj_pos)

lemma do_call_bound:
  assumes "0 < cache_num p" and "int (length (cache p)) \<le> cache_num p"
  shows "int (length (cache (do_call h p c))) \<le> cache_num p \<and>
         cache_num (do_call h p c) = cache_num p"
proof (cases c)
  case (Get k)
  with assms show ?thesis by (simp add: get_pool)
next
  case (Set k r)
  with assms set_obj_bound [of p k r] show ?thesis by simp
next
  case (Pop ko)
  with assms pop_length [of p ko] show ?thesis by simp
next
  case (Acquire k)
  with assms acquire_length [of h p k] show ?thesis by simp
qed

lemma do_calls_bound:
  "0 < cache_num p \<Longrightarrow> int (length (cache p)) \<le> cache_num p \<Longrightarrow>
   int (length (cache (do_calls p cs))) \<le> cache_num p \<and> cache_num (do_calls p cs) = cache_num p"
proof (induction cs arbitrary: p)
  case Nil
  then show ?case by simp
next
  case (Cons x cs)
  obtain h c where x: "x = (h, c)" by (cases x)
  from do_call_bound [OF Cons.prems, of h c] Cons.prems
  have "0 < cache_num (do_call h p c)"
    and "int (length (cache (do_call h p c))) \<le> cache_num (do_call h p c)"
    and "cache_num (do_call h p c) = cache_num p"
    by simp_all
  with Cons.IH [of "do_call h p c"] x show ?case by simp
qed

subsection \<open>The capacity bound\<close>

text \<open>
  C3. A pool made with a positive capacity bound never holds more entries than the bound
  after any call of \<open>get\<close>, \<open>set\<close>, \<open>pop\<close> or \<open>acquire\<close>: this holds for every sequence of
  calls, so after each call of a sequence.
\<close>
theorem entries_never_exceed_capacity:
  "0 < n \<Longrightarrow> int (length (cache (do_calls (CachePool_init n) cs))) \<le> n"
  using do_calls_bound [of "CachePool_init n" cs] by (simp add: CachePool_init_def)

theorem entries_never_exceed_capacity_witness:
  "(0::int) < 1 \<and>
   int (length (cache (do_calls (CachePool_init 1)
      [(\<lambda>_. ThreadSafeObject_init ''A'' :: (string, unit) ThreadSafeObject, Set ''A'' 0),
       (\<lambda>_. ThreadSafeObject_init ''A'', Set ''B'' 1)]))) \<le> 1"
  using entries_never_exceed_capacity [of 1] by (simp add: set_obj_pos CachePool_init_def)

text \<open>
  C6. With capacity 2, inserting three distinct keys A, B, C in this order leaves exactly
  the keys B and C in the pool: A has been evicted.
\<close>
theorem capacity_two_insert_three:
  "A \<noteq> B \<Longrightarrow> A \<noteq> C \<Longrightarrow> B \<noteq> C \<Longrightarrow>
   keys (after (set_obj (after (set_obj (after (set_obj (CachePool_init 2) A ra)) B rb)) C rc))
     = [B, C]"
  by (simp add: set_obj_pos CachePool_init_def keys_def)

theorem capacity_two_insert_three_witness:
  "''A'' \<noteq> ''B'' \<and> ''A'' \<noteq> ''C'' \<and> ''B'' \<noteq> ''C'' \<and>
   keys (after (set_obj (after (set_obj (after (set_obj (CachePool_init 2) ''A'' 0)) ''B'' 1)) ''C'' 2))
     = [''B'', ''C'']"
  using capacity_two_insert_three [of "''A''" "''B''" "''C''" 0 1 2] by simp

subsection \<open>What the capacity check evicts\<close>

text \<open>
  C2, as the code has it. With a positive capacity bound, inserting a key that is not in
  the pool appends it and then drops entries from the oldest end until the bound holds,
  whatever their readiness signals say (\<open>set\<close> does not look at the objects at all); the
  entry just inserted stays in the pool.
\<close>
theorem capacity_check_evicts_oldest:
  "0 < cache_num p \<Longrightarrow> k \<notin> set (keys p) \<Longrightarrow>
   set_obj p k r =
     Return r (p\<lparr>cache := drop (Suc (length (cache p)) - nat (cache_num p)) (cache p @ [(k, r)])\<rparr>)
   \<and> (k, r) \<in> set (cache (after (set_obj p k r)))"
proof -
  assume pos: "0 < cache_num p" and new: "k \<notin> set (keys p)"
  from new have s: "od_setitem (cache p) k r = cache p @ [(k, r)]"
    by (simp add: od_setitem_new keys_def)
  have eq: "set_obj p k r =
     Return r (p\<lparr>cache := drop (Suc (length (cache p)) - nat (cache_num p)) (cache p @ [(k, r)])\<rparr>)"
    using pos by (simp add: set_obj_pos s)
  from pos have "Suc (length (cache p)) - nat (cache_num p) \<le> length (cache p)" by linarith
  then have "(k, r) \<in> set (drop (Suc (length (cache p)) - nat (cache_num p)) (cache p @ [(k, r)]))"
    by simp
  with eq show ?thesis by simp
qed

theorem capacity_check_evicts_oldest_witness:
  "(0::int) < cache_num \<lparr>cache_num = 1, cache = [(''A'', 0)], atomic = None\<rparr> \<and>
   ''B'' \<notin> set (keys \<lparr>cache_num = 1, cache = [(''A'', 0)], atomic = None\<rparr>) \<and>
   set_obj \<lparr>cache_num = 1, cache = [(''A'', 0)], atomic = None\<rparr> ''B'' 1 =
     Return 1 \<lparr>cache_num = 1, cache = [(''B'', 1)], atomic = None\<rparr>"
  using capacity_check_evicts_oldest [of "\<lparr>cache_num = 1, cache = [(''A'', 0)], atomic = None\<rparr>" "''B''" 1]
  by (simp add: keys_def)

text \<open>
  The entry of key A is still under construction (its readiness signal is not set) when B
  is inserted into a pool of capacity 1, and A is the entry evicted.
\<close>

theorem capacity_check_evicts_unloaded_counterexample:
  "\<not> loaded ((\<lambda>_. ThreadSafeObject_init ''A'' :: (string, unit) ThreadSafeObject) 0) \<and>
   od_get (cache \<lparr>cache_num = 1, cache = [(''A'', 0)], atomic = None\<rparr>) ''A'' = Some 0 \<and>
   set_obj \<lparr>cache_num = 1, cache = [(''A'', 0)], atomic = None\<rparr> ''B'' 1 =
     Return 1 \<lparr>cache_num = 1, cache = [(''B'', 1)], atomic = None\<rparr>"
  by (simp add: ThreadSafeObject_init_def od_get_def set_obj_pos)

lemma do_calls_sets_nonpos:
  "cache_num p \<le> 0 \<Longrightarrow>
   set (keys (do_calls p (map (\<lambda>(k, r). (h, Set k r)) kvs))) = set (keys p) \<union> fst ` set kvs"
proof (induction kvs arbitrary: p)
  case Nil
  show ?case by simp
next
  case (Cons x kvs)
  obtain k r where x: "x = (k, r)" by (cases x)
  let ?p = "p\<lparr>cache := od_setitem (cache p) k r\<rparr>"
  have step: "after (set_obj p k r) = ?p"
    using Cons.prems by (simp add: set_obj_nonpos)
  have "cache_num ?p \<le> 0" using Cons.prems by simp
  from Cons.IH [OF this] have
    "set (keys (do_calls ?p (map (\<lambda>(k, r). (h, Set k r)) kvs))) = set (keys ?p) \<union> fst ` set kvs" .
  moreover have "set (keys ?p) = insert k (set (keys p))"
    by (simp add: keys_def keys_od_setitem)
  ultimately show ?case by (simp add: x step)
qed

subsection \<open>A capacity that is not positive\<close>

text \<open>
  C9. Making a pool with a capacity of zero or less gives a pool with that capacity, no
  exception. In every pool with such a capacity an insertion only stores the entry, and
  after any sequence of insertions every key that was in the pool or was inserted is still
  there.
\<close>
theorem nonpositive_capacity_disables_eviction:
  "n \<le> 0 \<Longrightarrow> cache_num (p :: 'k CachePool) = n \<Longrightarrow>
   cache_num (CachePool_init n :: 'k CachePool) = n \<and>
   set_obj p k r = Return r (p\<lparr>cache := od_setitem (cache p) k r\<rparr>) \<and>
   set (keys (do_calls p (map (\<lambda>(k, r). (h, Set k r)) kvs))) = set (keys p) \<union> fst ` set kvs"
proof -
  assume n: "n \<le> 0" and p: "cache_num p = n"
  have a: "cache_num (CachePool_init n :: 'k CachePool) = n" by (simp add: CachePool_init_def)
  have b: "set_obj p k r = Return r (p\<lparr>cache := od_setitem (cache p) k r\<rparr>)"
    using n p by (simp add: set_obj_nonpos)
  have c: "set (keys (do_calls p (map (\<lambda>(k, r). (h, Set k r)) kvs)))
             = set (keys p) \<union> fst ` set kvs"
    using n p by (intro do_calls_sets_nonpos) simp
  from a b c show ?thesis by blast
qed

theorem nonpositive_capacity_disables_eviction_witness:
  "(0::int) \<le> 0 \<and> cache_num (CachePool_init 0 :: string CachePool) = 0 \<and>
   set_obj (CachePool_init 0) ''A'' 0 =
     Return 0 \<lparr>cache_num = 0, cache = [(''A'', 0)], atomic = None\<rparr> \<and>
   set (keys (do_calls (CachePool_init 0)
         (map (\<lambda>(k, r). (\<lambda>_. ThreadSafeObject_init ''A'' :: (string, unit) ThreadSafeObject, Set k r))
            [(''A'', 0), (''B'', 1), (''C'', 2)])))
     = {''A'', ''B'', ''C''}"
  using nonpositive_capacity_disables_eviction
          [of 0 "CachePool_init 0 :: string CachePool" "''A''" 0
              "\<lambda>_. ThreadSafeObject_init ''A'' :: (string, unit) ThreadSafeObject"
              "[(''A'', 0), (''B'', 1), (''C'', 2)]"]
  by (simp add: CachePool_init_def keys_def set_obj_nonpos)

subsection \<open>\<open>get\<close> and \<open>acquire\<close>\<close>




subsection \<open>The steps of a loader\<close>



lemma after_set_obj_fields [simp]:
  "cache_num (after (set_obj p k r)) = cache_num p"
  "atomic (after (set_obj p k r)) = atomic p"
  using set_obj_returns [of p k r] by auto

lemma after_set_obj_atomic [simp]:
  "after (set_obj (p\<lparr>atomic := l\<rparr>) k r) = (after (set_obj p k r))\<lparr>atomic := l\<rparr>"
  by (cases "0 < cache_num p") (simp_all add: set_obj_pos set_obj_nonpos)







lemma atomic_acquire_free:
  "atomic (pool s) = None \<Longrightarrow>
   atomic_acquire t s = Some (s\<lparr>pool := (pool s)\<lparr>atomic := Some (t, 1)\<rparr>\<rparr>)"
  by (simp add: atomic_acquire_def RLock_acquire_def)




lemma get_in_loading:
  "od_get (cache (pool s)) k = Some r \<Longrightarrow> \<not> loaded (objects s r) \<Longrightarrow> get_in s k = Wait s"
  by (simp add: get_in_def get_def)






subsection \<open>\<open>load_embeddings\<close>\<close>




lemma load_embeddings_loading:
  assumes "atomic (pool s) = None"
    and "od_get (cache (pool s)) (str_or model (EMBEDDING_MODEL cfg), embedding_device cfg) = Some r"
    and "\<not> loaded (objects s r)"
  shows "load_embeddings cfg t model device s =
           Wait (s\<lparr>pool := (pool s)\<lparr>atomic := Some (t, 1)\<rparr>\<rparr>)"
  using assms
  by (simp add: load_embeddings_def atomic_acquire_free get_in_loading Let_def)



subsection \<open>\<open>load_vector_store\<close>\<close>

lemma embeddings_pool_other_updates [simp]:
  "embeddings_pool (s\<lparr>pool := p\<rparr>) = embeddings_pool s"
  "embeddings_pool (s\<lparr>objects := ob\<rparr>) = embeddings_pool s"
  "embeddings_pool (s\<lparr>next_ref := n\<rparr>) = embeddings_pool s"
  "embeddings_pool (s\<lparr>dirs := d\<rparr>) = embeddings_pool s"
  "embeddings_pool (s\<lparr>index_faiss := i\<rparr>) = embeddings_pool s"
  by (cases s; simp)+








subsection \<open>A constructor that raises\<close>




subsection \<open>Removing an entry\<close>

text \<open>
  C8, as the code has it. \<open>unload_vector_store\<close> waits for the readiness signal of the entry and
  then removes the key from the pool; \<open>pop\<close> removes it without waiting. Neither takes the
  lock of the object, and neither changes any object.
\<close>
theorem unload_takes_no_lock:
  "unload_vector_store s k =
     (case od_get (cache (pool s)) k of
        None \<Rightarrow> Return () s
      | Some r \<Rightarrow>
          if loaded (objects s r)
          then Return () (s\<lparr>pool := (pool s)\<lparr>cache := filter (\<lambda>e. fst e \<noteq> k) (cache (pool s))\<rparr>\<rparr>)
          else Wait s) \<and>
   objects (after (unload_vector_store s k)) = objects s \<and>
   pop (pool s) (Some k) =
     Return (Value (od_get (cache (pool s)) k))
            ((pool s)\<lparr>cache := filter (\<lambda>e. fst e \<noteq> k) (cache (pool s))\<rparr>)"
  by (simp add: unload_vector_store_def get_in_def get_def pop_def od_pop_def od_get_def
        split: option.splits)

text \<open>
  Thread 2 holds the lock of the entry (it is using the vector store) when the entry is
  unloaded: the call returns at once, the entry is gone from the pool, and the lock is still
  held by thread 2.
\<close>

theorem unload_while_locked_counterexample:
  "lock (objects
     \<lparr>pool = \<lparr>cache_num = 1, cache = [(''kb1'', 0)], atomic = None\<rparr>,
      objects = (\<lambda>_. \<lparr>key = ''kb1'', obj = Some (), has_pool = True, lock = Some (2, 1),
                      loaded = True\<rparr>),
      next_ref = 1\<rparr> 0) = Some (2, 1) \<and>
   unload_vector_store
     \<lparr>pool = \<lparr>cache_num = 1, cache = [(''kb1'', 0)], atomic = None\<rparr>,
      objects = (\<lambda>_. \<lparr>key = ''kb1'', obj = Some (), has_pool = True, lock = Some (2, 1),
                      loaded = True\<rparr>),
      next_ref = 1\<rparr> ''kb1''
   = Return ()
     \<lparr>pool = \<lparr>cache_num = 1, cache = [], atomic = None\<rparr>,
      objects = (\<lambda>_. \<lparr>key = ''kb1'', obj = Some (), has_pool = True, lock = Some (2, 1),
                      loaded = True\<rparr>),
      next_ref = 1\<rparr>"
  by (simp add: unload_vector_store_def get_in_def get_def pop_def od_pop_def od_get_def)

subsection \<open>Threads loading the same key at the same time\<close>



































end
